theory Spec2Isabelle
  imports Main "HOL-Library.Word"
begin

section \<open>C strings and the libc comparisons used by fontpack.cc\<close>

text \<open>
  A C string is modelled as a \<open>string\<close> (the bytes before the terminating NUL; no byte of
  the list is NUL).  A pointer into a string is an index into the list, and the string
  seen through the pointer is \<open>drop\<close> of the list at that index.

  \<open>tolower\<close> is the one of the C locale: it moves the 26 upper-case ASCII letters and
  nothing else.
\<close>

definition tolower :: "char \<Rightarrow> char" where
  "tolower c =
     (case map_of (zip ''ABCDEFGHIJKLMNOPQRSTUVWXYZ'' ''abcdefghijklmnopqrstuvwxyz'') c of
        None \<Rightarrow> c
      | Some l \<Rightarrow> l)"

text \<open>
  \<open>strcasecmp_eq a b\<close> stands for \<open>strcasecmp (a, b) == 0\<close> and
  \<open>strncasecmp_eq a b n\<close> for \<open>strncasecmp (a, b, n) == 0\<close>; the source only ever tests
  the result against 0.  \<open>strncasecmp\<close> looks at no more than the first \<open>n\<close> bytes of each
  argument and stops at the end of the shorter one, where the NUL differs from any byte of
  the longer one: the two prefixes of length \<open>n\<close> have to be equal up to case.
\<close>

definition strcasecmp_eq :: "string \<Rightarrow> string \<Rightarrow> bool" where
  "strcasecmp_eq a b = (map tolower a = map tolower b)"

definition strncasecmp_eq :: "string \<Rightarrow> string \<Rightarrow> nat \<Rightarrow> bool" where
  "strncasecmp_eq a b n = (map tolower (take n a) = map tolower (take n b))"

text \<open>\<open>strrchr (s, c)\<close> for \<open>c\<close> other than NUL: the index of the last \<open>c\<close> in \<open>s\<close>,
  \<open>None\<close> for the null pointer.\<close>

fun strrchr :: "string \<Rightarrow> char \<Rightarrow> nat option" where
  "strrchr [] c = None"
| "strrchr (x # xs) c =
     (case strrchr xs c of
        Some i \<Rightarrow> Some (Suc i)
      | None \<Rightarrow> if x = c then Some 0 else None)"

section \<open>fontpack.cc: the search state\<close>

text \<open>\<open>struct SearchState\<close> (fontpack.cc, lines 22-35) with its default member
  initialisers, and the one object \<open>sstate\<close> of namespace scope (line 36).  \<open>level\<close> is a
  C \<open>int\<close>; it only ever holds 0 or a depth reported by \<open>nftw\<close>, so it is an \<open>int\<close> here.\<close>

record SearchState =
  fontname :: string
  fontnamelen :: nat
  level :: int
  ext :: string
  regular :: string
  bold :: string
  italic :: string
  boldItalic :: string

definition sstate_init :: SearchState where
  "sstate_init =
     \<lparr>fontname = [], fontnamelen = 0, level = 0, ext = [], regular = [], bold = [],
      italic = [], boldItalic = []\<rparr>"

text \<open>The last parameter of \<open>saveCandidate\<close> is a reference to one of the four path
  members of \<open>sstate\<close>; the variant names the member.\<close>

datatype variant = Regular | Bold | Italic | BoldItalic

fun set_dest :: "variant \<Rightarrow> string \<Rightarrow> SearchState \<Rightarrow> SearchState" where
  "set_dest Regular p s = s\<lparr>regular := p\<rparr>"
| "set_dest Bold p s = s\<lparr>bold := p\<rparr>"
| "set_dest Italic p s = s\<lparr>italic := p\<rparr>"
| "set_dest BoldItalic p s = s\<lparr>boldItalic := p\<rparr>"

fun get_dest :: "variant \<Rightarrow> SearchState \<Rightarrow> string" where
  "get_dest Regular s = regular s"
| "get_dest Bold s = bold s"
| "get_dest Italic s = italic s"
| "get_dest BoldItalic s = boldItalic s"

text \<open>\<open>saveCandidate\<close> (lines 38-54).  The trace output of \<open>logT\<close> is not part of the
  model; the return value 1 is the rejection.  \<open>sstate.ext != ext\<close> compares a
  \<open>std::string\<close> with a C string: equality of the bytes, case included.\<close>

definition saveCandidate ::
  "string \<Rightarrow> string \<Rightarrow> int \<Rightarrow> variant \<Rightarrow> SearchState \<Rightarrow> int \<times> SearchState" where
  "saveCandidate fpath ext' level' v s =
     (if ext s \<noteq> [] \<and> ext s \<noteq> ext' then (1, s)
      else (0, (set_dest v fpath s)\<lparr>ext := ext', level := level'\<rparr>))"

section \<open>fontpack.cc: the file filter\<close>

text \<open>The type flags of \<open>ftw.h\<close> and the two members of \<open>struct FTW\<close>.\<close>

datatype tflag = FTW_F | FTW_D | FTW_DNR | FTW_DP | FTW_NS | FTW_SL | FTW_SLN

record FTW =
  base :: nat
  ftw_level :: int

text \<open>Lines 92-94, \<open>do --ext; while (ext > fname && ext [0] != '.')\<close>, entered with
  \<open>ext > fname\<close>: the argument is the index of \<open>ext\<close> in \<open>fname\<close> before the loop, the
  result the index after it.\<close>

fun back_to_dot :: "string \<Rightarrow> nat \<Rightarrow> nat" where
  "back_to_dot fname 0 = 0"
| "back_to_dot fname (Suc e) =
     (if e > 0 \<and> fname ! e \<noteq> CHR ''.'' then back_to_dot fname e else e)"

text \<open>Lines 88-99: the index of \<open>ext\<close> in \<open>fname\<close> for a file that passes the filter by
  extension, \<open>None\<close> for a file that returns 0 there.\<close>

definition find_ext :: "string \<Rightarrow> nat option" where
  "find_ext fname =
     (case strrchr fname (CHR ''.'') of
        None \<Rightarrow> None
      | Some e0 \<Rightarrow>
          let e = (if strcasecmp_eq (drop e0 fname) ''.gz'' \<and> e0 > 0
                   then back_to_dot fname e0 else e0)
          in if \<not> strcasecmp_eq (drop e fname) ''.ttf'' \<and>
                \<not> strcasecmp_eq (drop e fname) ''.otf'' \<and>
                \<not> strcasecmp_eq (drop e fname) ''.pcf.gz''
             then None else Some e)"

text \<open>Line 109, \<open>size_t midlen = ext - mid\<close>: the difference of two pointers into
  \<open>fname\<close>, converted to the unsigned \<open>size_t\<close> (64 bits), which wraps when \<open>ext\<close> lies
  before \<open>mid\<close>.\<close>

definition ptrdiff_size_t :: "nat \<Rightarrow> nat \<Rightarrow> nat" where
  "ptrdiff_size_t e m = (if m \<le> e then e - m else 2 ^ 64 - (m - e))"

text \<open>Lines 112-117: the optional separator. The pair is \<open>(mid, midlen)\<close>, \<open>mid\<close> being
  the string seen through the pointer (it runs to the end of the file name); where \<open>mid\<close>
  points at the terminating NUL, \<open>mid [0]\<close> is no separator.\<close>

definition skip_separator :: "string \<times> nat \<Rightarrow> string \<times> nat" where
  "skip_separator = (\<lambda>(mid, midlen).
     if midlen > 0 \<and> mid \<noteq> [] \<and>
        (hd mid = CHR ''-'' \<or> hd mid = CHR ''_'' \<or> hd mid = CHR '' '')
     then (tl mid, midlen - 1) else (mid, midlen))"

text \<open>Lines 120-153: the chain of comparisons that picks the variant, \<open>None\<close> when no
  branch is taken.\<close>

definition classify :: "string \<Rightarrow> nat \<Rightarrow> variant option" where
  "classify mid midlen =
     (if midlen = 0 \<or>
         strncasecmp_eq mid ''R'' midlen \<or>
         strncasecmp_eq mid ''Regular'' midlen
      then Some Regular
      else if strncasecmp_eq mid ''B'' midlen \<or>
              strncasecmp_eq mid ''Bold'' midlen
      then Some Bold
      else if strncasecmp_eq mid ''I'' midlen \<or>
              strncasecmp_eq mid ''It'' midlen \<or>
              strncasecmp_eq mid ''Italic'' midlen \<or>
              strncasecmp_eq mid ''O'' midlen \<or>
              strncasecmp_eq mid ''Ob'' midlen \<or>
              strncasecmp_eq mid ''Oblique'' midlen
      then Some Italic
      else if strncasecmp_eq mid ''BI'' midlen \<or>
              strncasecmp_eq mid ''BoldIt'' midlen \<or>
              strncasecmp_eq mid ''BoldItalic'' midlen
      then Some BoldItalic
      else None)"

text \<open>Lines 86-153 for a regular file: the variant the file is taken for and the index of
  its extension in the file name, \<open>None\<close> when the file is passed over.\<close>

definition match_file :: "string \<Rightarrow> nat \<Rightarrow> string \<Rightarrow> (variant \<times> nat) option" where
  "match_file fontname' fontnamelen' fname =
     (case find_ext fname of
        None \<Rightarrow> None
      | Some e \<Rightarrow>
          if \<not> strncasecmp_eq fname fontname' fontnamelen' then None
          else
            (case skip_separator (drop fontnamelen' fname, ptrdiff_size_t e fontnamelen') of
               (mid, midlen) \<Rightarrow>
                 (case classify mid midlen of
                    None \<Rightarrow> None
                  | Some v \<Rightarrow> Some (v, e))))"

text \<open>\<open>fontFileFilter\<close> (lines 56-173), the callback handed to \<open>nftw\<close>.  The
  \<open>struct stat\<close> argument is not read.  The result is the return value and the new
  \<open>sstate\<close>; whether \<open>saveCandidate\<close> rejects or not, the callback returns 0.\<close>

definition fontFileFilter ::
  "string \<Rightarrow> tflag \<Rightarrow> FTW \<Rightarrow> SearchState \<Rightarrow> int \<times> SearchState" where
  "fontFileFilter fpath tflag ftwbuf s =
     (if tflag = FTW_D \<and> level s > 0 \<and> ftw_level ftwbuf = level s - 1 \<and>
         length (regular s) > 0
      then (1, s)
      else if tflag = FTW_D \<and> level s > 0
      then (0, s\<lparr>level := 0, ext := [], regular := [], bold := [], italic := [],
                 boldItalic := []\<rparr>)
      else if tflag \<noteq> FTW_F then (0, s)
      else
        (let fname = drop (base ftwbuf) fpath in
         case match_file (fontname s) (fontnamelen s) fname of
           None \<Rightarrow> (0, s)
         | Some (v, e) \<Rightarrow>
             (0, snd (saveCandidate fpath (drop e fname) (ftw_level ftwbuf) v s))))"

section \<open>The file tree and \<open>nftw\<close>\<close>

text \<open>
  What \<open>nftw\<close> finds at a path.  A directory holds its entries by name, in the order in
  which \<open>readdir\<close> delivers them.  \<open>File\<close> is any object that \<open>stat\<close> reports and that
  is no directory; \<open>Unreadable\<close> is a directory that cannot be opened, \<open>Unstatable\<close> an
  object on which \<open>stat\<close> fails for lack of permission, \<open>Dangling\<close> a symbolic link to
  nothing; \<open>Failing\<close> is an object at which \<open>nftw\<close> itself gives up (a start path that
  does not exist, an error other than the ones above).
\<close>

datatype fsobj =
    File
  | Dir "(string \<times> fsobj) list"
  | Unreadable
  | Unstatable
  | Dangling
  | Failing

text \<open>
  \<open>nftw\<close> of libc (POSIX \<open>ftw.h\<close>), as far as \<open>Fontpack\<close> depends on it.  The callback
  gets the path, the type flag and \<open>base\<close> and \<open>level\<close>; a result other than 0 stops the
  walk and is the result of \<open>nftw\<close>; -1 is the result when \<open>nftw\<close> fails.  The entries of
  a directory \<open>d\<close> have the paths \<open>d/name\<close>, \<open>base\<close> pointing behind the slash, and the
  level of \<open>d\<close> plus one.  With \<open>FTW_DEPTH\<close> (\<open>depth\<close> here) a directory is reported after
  its entries, with the flag \<open>FTW_DP\<close>; without it, before its entries, with the flag
  \<open>FTW_D\<close>.  (POSIX on \<open>FTW_DP\<close>: "The object is a directory and subdirectories have
  been visited. (This condition shall only be met if the FTW_DEPTH flag is included in
  flags.)"; the manual of glibc: "FTW_DP: fpath is a directory, and FTW_DEPTH was
  specified in flags. (If FTW_DEPTH was not specified in flags, then directories will
  always be visited with typeflag set to FTW_D.)")
\<close>

fun nftw_obj ::
    "(string \<Rightarrow> tflag \<Rightarrow> FTW \<Rightarrow> 's \<Rightarrow> int \<times> 's) \<Rightarrow> bool \<Rightarrow> string \<Rightarrow> nat \<Rightarrow> int \<Rightarrow>
     fsobj \<Rightarrow> 's \<Rightarrow> int \<times> 's"
  and nftw_entries ::
    "(string \<Rightarrow> tflag \<Rightarrow> FTW \<Rightarrow> 's \<Rightarrow> int \<times> 's) \<Rightarrow> bool \<Rightarrow> string \<Rightarrow> int \<Rightarrow>
     (string \<times> fsobj) list \<Rightarrow> 's \<Rightarrow> int \<times> 's"
where
  "nftw_obj fn depth fpath b l File s = fn fpath FTW_F \<lparr>base = b, ftw_level = l\<rparr> s"
| "nftw_obj fn depth fpath b l Unreadable s = fn fpath FTW_DNR \<lparr>base = b, ftw_level = l\<rparr> s"
| "nftw_obj fn depth fpath b l Unstatable s = fn fpath FTW_NS \<lparr>base = b, ftw_level = l\<rparr> s"
| "nftw_obj fn depth fpath b l Dangling s = fn fpath FTW_SLN \<lparr>base = b, ftw_level = l\<rparr> s"
| "nftw_obj fn depth fpath b l Failing s = (- 1, s)"
| "nftw_obj fn depth fpath b l (Dir es) s =
     (if depth
      then (case nftw_entries fn depth fpath (l + 1) es s of
              (r, s') \<Rightarrow>
                if r \<noteq> 0 then (r, s')
                else fn fpath FTW_DP \<lparr>base = b, ftw_level = l\<rparr> s')
      else (case fn fpath FTW_D \<lparr>base = b, ftw_level = l\<rparr> s of
              (r, s') \<Rightarrow>
                if r \<noteq> 0 then (r, s')
                else nftw_entries fn depth fpath (l + 1) es s'))"
| "nftw_entries fn depth dir l [] s = (0, s)"
| "nftw_entries fn depth dir l (e # es) s =
     (case nftw_obj fn depth (dir @ ''/'' @ fst e) (length dir + 1) l (snd e) s of
        (r, s') \<Rightarrow>
          if r \<noteq> 0 then (r, s')
          else nftw_entries fn depth dir l es s')"

text \<open>The start path is reported at level 0, \<open>base\<close> pointing behind its last slash.\<close>

definition root_base :: "string \<Rightarrow> nat" where
  "root_base fpath = length fpath - length (takeWhile (\<lambda>c. c \<noteq> CHR ''/'') (rev fpath))"

definition nftw ::
  "fsobj \<Rightarrow> string \<Rightarrow> (string \<Rightarrow> tflag \<Rightarrow> FTW \<Rightarrow> 's \<Rightarrow> int \<times> 's) \<Rightarrow> bool \<Rightarrow> 's \<Rightarrow> int \<times> 's" where
  "nftw root dirpath fn depth s = nftw_obj fn depth dirpath (root_base dirpath) 0 root s"

section \<open>fontpack.cc: the constructor of \<open>Fontpack\<close>\<close>

text \<open>
  Modelled from the spec: \<open>SYS_ERROR\<close>, a macro of a header that is not among the
  sources.  The spec has the failure of the walk fatal ("Resolution failure (no Regular
  variant found under the search root, or the tree cannot be walked) is fatal at
  startup"): the macro does not return.  With the \<open>std::runtime_error\<close> of line 197
  these are the two ways in which the constructor throws.
\<close>

datatype error = SYS_ERROR string | runtime_error string

text \<open>The members of \<open>Fontpack\<close> that the constructor sets.  A \<open>Font\<close> is given by the
  path it is loaded from; loading the face is the work of the \<open>Font\<close> class, outside this
  file, and is taken to succeed.\<close>

record Fontpack =
  fontRegular :: string
  fontBold :: "string option"
  fontItalic :: "string option"
  fontBoldItalic :: "string option"

definition opt_font :: "string \<Rightarrow> string option" where
  "opt_font p = (if length p > 0 then Some p else None)"

text \<open>\<open>Fontpack::Fontpack\<close> (lines 178-214).  \<open>root\<close> is what the file system holds at
  \<open>fontpath\<close>.  The global \<open>sstate\<close> is an argument and a result: the constructor reads
  and writes it, and it is still there when the constructor has returned or thrown.\<close>

definition Fontpack_Fontpack ::
  "fsobj \<Rightarrow> string \<Rightarrow> string \<Rightarrow> SearchState \<Rightarrow> (error + Fontpack) \<times> SearchState" where
  "Fontpack_Fontpack root fontpath fontname' s =
     (case nftw root fontpath fontFileFilter True
             (s\<lparr>fontname := fontname', fontnamelen := length fontname'\<rparr>) of
        (rc, s') \<Rightarrow>
          if rc = - 1 then (Inl (SYS_ERROR ''Cannot walk file tree; nftw()''), s')
          else if \<not> length (regular s') > 0
          then (Inl (runtime_error (''No suitable files for '' @ [CHR 39] @ fontname' @
                                    [CHR 39] @ '' found!'')), s')
          else (Inr \<lparr>fontRegular = regular s',
                     fontBold = opt_font (bold s'),
                     fontItalic = opt_font (italic s'),
                     fontBoldItalic = opt_font (boldItalic s')\<rparr>, s'))"

section \<open>renderer.cc: frames and the shared slot\<close>

text \<open>
  Modelled from the spec: \<open>Frame\<close>, which is declared in a header that is not among
  the sources: "a value snapshot of one terminal display state: monotonically increasing
  seqNo; window size in pixels; grid size in columns/rows; cursor descriptor; selection
  descriptor; a mapping from grid position to (glyph, attributes)".  The members that
  renderer.cc reads are kept under their names there; cursor, selection and cells are the
  \<open>content\<close>.  The sequence number is an unsigned machine integer, and its width is a
  parameter of the model: the functions below take \<open>'n\<close> to be \<open>'a word\<close> for any
  width \<open>'a\<close>, where \<open>++\<close> and \<open>+ 1\<close> wrap around.
\<close>

record ('n, 'c) Frame =
  seqNo :: 'n
  winPx :: nat
  winPy :: nat
  nCols :: nat
  nRows :: nat
  content :: 'c

text \<open>What the render thread calls on the display adapter (\<open>initDisplay\<close>,
  \<open>swapBuffers\<close>), on the drawing engine \<open>CharVdev\<close> and on its own frame
  (\<open>deltaCopyCells\<close>, \<open>copyCells\<close>), in the order of the calls.\<close>

datatype call =
    InitDisplay
  | NewCharVdev
  | Resize nat nat
  | GetMapping
  | DeltaCopyCells
  | CopyCells
  | SetDeltaFrame bool
  | SetCursor
  | SetSelection
  | Draw
  | SwapBuffers

text \<open>Where the render thread stands: before \<open>initDisplay\<close>; in the loop, at
  \<open>cond.wait\<close>, with its locals \<open>lastFrame\<close> and \<open>delta\<close>; returned (line 67); stopped
  by a failed \<open>assert\<close> (lines 78-79).\<close>

datatype ('n, 'c) thread =
    Uninitialized
  | Waiting "('n, 'c) Frame" bool
  | Returned
  | Aborted

text \<open>The members of \<open>Renderer\<close> that renderer.cc uses: the slot \<open>nextFrame\<close>, the
  counter \<open>seqNo\<close> (here \<open>rseqNo\<close>) and the flag \<open>done\<close> (here \<open>done_flag\<close>), all
  guarded by \<open>mx\<close>; the thread \<open>thr\<close>; and the calls made so far.\<close>

record ('n, 'c) Renderer =
  nextFrame :: "('n, 'c) Frame"
  rseqNo :: 'n
  done_flag :: bool
  thr :: "('n, 'c) thread"
  calls :: "call list"

text \<open>\<open>Renderer::Renderer\<close> (lines 18-24) starts the thread and initialises none of
  \<open>nextFrame\<close>, \<open>seqNo\<close>, \<open>done\<close> in its initialiser list: they hold what their
  declarations in renderer.h give them.  \<open>frame0\<close> is the default-constructed \<open>Frame\<close>,
  \<open>seq0\<close> the first value of the counter; the flag is not set.\<close>

definition Renderer_Renderer :: "('a::len word, 'c) Frame \<Rightarrow> 'a word \<Rightarrow> ('a word, 'c) Renderer" where
  "Renderer_Renderer frame0 seq0 =
     \<lparr>nextFrame = frame0, rseqNo = seq0, done_flag = False, thr = Uninitialized, calls = []\<rparr>"

text \<open>\<open>Renderer::update\<close> (lines 36-44), the part under the lock.\<close>

definition update :: "('a::len word, 'c) Frame \<Rightarrow> ('a word, 'c) Renderer \<Rightarrow> ('a word, 'c) Renderer" where
  "update frame r =
     (let n = rseqNo r + 1
      in r\<lparr>nextFrame := frame\<lparr>seqNo := n\<rparr>, rseqNo := n\<rparr>)"

text \<open>\<open>Renderer::~Renderer\<close> (lines 26-34), the part under the lock; \<open>thr.join ()\<close>
  then waits for the thread to return.\<close>

definition destroy :: "('a::len word, 'c) Renderer \<Rightarrow> ('a word, 'c) Renderer" where
  "destroy r =
     (let n = rseqNo r + 1
      in r\<lparr>done_flag := True, nextFrame := (nextFrame r)\<lparr>seqNo := n\<rparr>, rseqNo := n\<rparr>)"

section \<open>renderer.cc: the render thread\<close>

text \<open>
  Lines 69-91, one render pass: from \<open>lastFrame\<close> and the \<open>nextFrame\<close> read under the
  lock to the new locals of the thread and the calls of the pass.  \<open>CharVdev\<close> is outside
  these sources: what its \<open>resize\<close> returns (\<open>didResize\<close>) and the grid size of its
  mapping (\<open>mCols\<close>, \<open>mRows\<close>) are inputs of the pass.
\<close>

definition render_pass ::
  "('a::len word, 'c) Frame \<Rightarrow> ('a word, 'c) Frame \<Rightarrow> bool \<Rightarrow> nat \<Rightarrow> nat \<Rightarrow> ('a word, 'c) thread \<times> call list" where
  "render_pass lastFrame next didResize mCols mRows =
     (let delta = (seqNo lastFrame + 1 = seqNo next);
          lastFrame' = next;
          delta' = (if didResize then False else delta)
      in if mCols \<noteq> nCols lastFrame' \<or> mRows \<noteq> nRows lastFrame'
         then (Aborted, [Resize (winPx lastFrame') (winPy lastFrame'), GetMapping])
         else (Waiting lastFrame' delta',
               [Resize (winPx lastFrame') (winPy lastFrame'), GetMapping,
                if delta' then DeltaCopyCells else CopyCells,
                SetDeltaFrame delta', SetCursor, SetSelection, Draw, SwapBuffers]))"

text \<open>
  \<open>Renderer::renderThread\<close> (lines 46-93), one turn of the thread: the initialisation
  (lines 50-55), or one round of the loop.  In a round the thread sits in \<open>cond.wait\<close>
  until the predicate of line 63 holds, however often it is woken; it reads \<open>done\<close> and
  \<open>nextFrame\<close> under the lock, and what follows the unlock touches only its locals and
  the collaborators, so that the round is one step against \<open>update\<close> and the destructor.
\<close>

definition renderThread ::
  "('a::len word, 'c) Frame \<Rightarrow> bool \<Rightarrow> nat \<Rightarrow> nat \<Rightarrow> ('a word, 'c) Renderer \<Rightarrow> ('a word, 'c) Renderer" where
  "renderThread frame0 didResize mCols mRows r =
     (case thr r of
        Uninitialized \<Rightarrow>
          r\<lparr>thr := Waiting frame0 False, calls := calls r @ [InitDisplay, NewCharVdev]\<rparr>
      | Waiting lastFrame delta \<Rightarrow>
          if \<not> (seqNo lastFrame \<noteq> seqNo (nextFrame r)) then r
          else if done_flag r then r\<lparr>thr := Returned\<rparr>
          else (case render_pass lastFrame (nextFrame r) didResize mCols mRows of
                  (t, cs) \<Rightarrow> r\<lparr>thr := t, calls := calls r @ cs\<rparr>)
      | Returned \<Rightarrow> r
      | Aborted \<Rightarrow> r)"

text \<open>The life of a \<open>Renderer\<close> is a sequence of events: submissions from any thread,
  turns of the render thread, the destructor.\<close>

datatype ('n, 'c) event =
    Update "('n, 'c) Frame"
  | Destroy
  | Turn bool nat nat

fun is_submission :: "('n, 'c) event \<Rightarrow> bool" where
  "is_submission (Update f) = True"
| "is_submission Destroy = True"
| "is_submission (Turn d c r) = False"

fun is_Update :: "('n, 'c) event \<Rightarrow> bool" where
  "is_Update (Update f) = True"
| "is_Update Destroy = False"
| "is_Update (Turn d c r) = False"

fun exec :: "('a::len word, 'c) Frame \<Rightarrow> ('a word, 'c) event \<Rightarrow> ('a word, 'c) Renderer \<Rightarrow> ('a word, 'c) Renderer" where
  "exec frame0 (Update f) r = update f r"
| "exec frame0 Destroy r = destroy r"
| "exec frame0 (Turn d mc mr) r = renderThread frame0 d mc mr r"

fun run :: "('a::len word, 'c) Frame \<Rightarrow> ('a word, 'c) event list \<Rightarrow> ('a word, 'c) Renderer \<Rightarrow> ('a word, 'c) Renderer" where
  "run frame0 [] r = r"
| "run frame0 (e # es) r = run frame0 es (exec frame0 e r)"

text \<open>The sequence numbers that the submissions of a run store in the slot, in order.\<close>

fun stored_seqNos ::
  "('a::len word, 'c) Frame \<Rightarrow> ('a word, 'c) event list \<Rightarrow> ('a word, 'c) Renderer \<Rightarrow> 'a word list" where
  "stored_seqNos frame0 [] r = []"
| "stored_seqNos frame0 (e # es) r =
     (if is_submission e
      then seqNo (nextFrame (exec frame0 e r)) # stored_seqNos frame0 es (exec frame0 e r)
      else stored_seqNos frame0 es (exec frame0 e r))"

text \<open>The render thread has drawn nothing and has nothing to draw: it has not entered
  the loop, or has returned, or waits with the \<open>lastFrame\<close> it started with, and the slot
  holds another sequence number than that frame only once \<open>done\<close> is set.\<close>

definition idle :: "('a::len word, 'c) Frame \<Rightarrow> ('a word, 'c) Renderer \<Rightarrow> bool" where
  "idle frame0 r \<longleftrightarrow>
     (thr r = Uninitialized \<or> thr r = Returned \<or> (\<exists>d. thr r = Waiting frame0 d)) \<and>
     (seqNo frame0 \<noteq> seqNo (nextFrame r) \<longrightarrow> done_flag r) \<and>
     Draw \<notin> set (calls r) \<and> SwapBuffers \<notin> set (calls r)"

text \<open>A frame with a 64-bit sequence number and a renderer waiting on it, for the
  examples.\<close>

definition example_frame :: "64 word \<Rightarrow> (64 word, unit) Frame" where
  "example_frame n =
     \<lparr>seqNo = n, winPx = 800, winPy = 600, nCols = 80, nRows = 24, content = ()\<rparr>"

definition example_renderer :: "64 word \<Rightarrow> 64 word \<Rightarrow> (64 word, unit) Renderer" where
  "example_renderer l n =
     \<lparr>nextFrame = example_frame n, rseqNo = n, done_flag = False,
      thr = Waiting (example_frame l) False, calls = []\<rparr>"

section \<open>The words of the spec on extensions and on the lexicon\<close>

text \<open>
  The extension as the spec words it, for the comparison with \<open>find_ext\<close>: "the final
  dot-delimited suffix; a trailing case-insensitive .gz is merged with the preceding
  suffix to form a compound extension", and "reject unless the extension
  case-insensitively matches one of: .ttf, .otf, .pcf.gz".
\<close>

definition final_dot_suffix :: "string \<Rightarrow> string option" where
  "final_dot_suffix s =
     (if CHR ''.'' \<in> set s
      then Some (CHR ''.'' # rev (takeWhile (\<lambda>c. c \<noteq> CHR ''.'') (rev s)))
      else None)"

definition accepted_ext :: "string \<Rightarrow> bool" where
  "accepted_ext e \<longleftrightarrow>
     strcasecmp_eq e ''.ttf'' \<or> strcasecmp_eq e ''.otf'' \<or> strcasecmp_eq e ''.pcf.gz''"

definition spec_extension :: "string \<Rightarrow> string option" where
  "spec_extension fname =
     (case final_dot_suffix fname of
        None \<Rightarrow> None
      | Some e \<Rightarrow>
          if strcasecmp_eq e ''.gz''
          then (case final_dot_suffix (take (length fname - length e) fname) of
                  None \<Rightarrow> Some e
                | Some p \<Rightarrow> Some (p @ e))
          else Some e)"

text \<open>The lexicon of the spec, the empty \<open>mid\<close> apart: the words and their variants.\<close>

definition lexicon :: "(string \<times> variant) list" where
  "lexicon =
     [(''R'', Regular), (''Regular'', Regular),
      (''B'', Bold), (''Bold'', Bold),
      (''I'', Italic), (''It'', Italic), (''Italic'', Italic),
      (''O'', Italic), (''Ob'', Italic), (''Oblique'', Italic),
      (''BI'', BoldItalic), (''BoldIt'', BoldItalic), (''BoldItalic'', BoldItalic)]"

section \<open>Properties of the renderer\<close>

subsection \<open>Delta or full redraw\<close>

text \<open>
  C1.  In a render pass (the thread waits with \<open>lastFrame\<close>, the slot holds another
  sequence number, \<open>done\<close> is not set, and the mapping of the drawing engine has the grid
  size of the frame, so that the assertions pass), the frame of the slot becomes
  \<open>lastFrame\<close>, and the pass is a delta pass if and only if the sequence number of that
  frame is the one of the frame rendered before plus one and \<open>resize\<close> reported no change;
  a delta pass calls \<open>deltaCopyCells\<close>, every other pass \<open>copyCells\<close>, and the flag handed
  to \<open>setDeltaFrame\<close> is the same.  The sum is the one of the counter's type.
\<close>

theorem C1_delta_iff_adjacent_and_no_resize:
  assumes "thr r = Waiting lastFrame d0"
    and "seqNo lastFrame \<noteq> seqNo (nextFrame r)"
    and "\<not> done_flag r"
    and "mCols = nCols (nextFrame r)" and "mRows = nRows (nextFrame r)"
  shows "renderThread frame0 didResize mCols mRows r =
     r\<lparr>thr := Waiting (nextFrame r) (seqNo (nextFrame r) = seqNo lastFrame + 1 \<and> \<not> didResize),
       calls := calls r @
         [Resize (winPx (nextFrame r)) (winPy (nextFrame r)), GetMapping,
          if seqNo (nextFrame r) = seqNo lastFrame + 1 \<and> \<not> didResize
          then DeltaCopyCells else CopyCells,
          SetDeltaFrame (seqNo (nextFrame r) = seqNo lastFrame + 1 \<and> \<not> didResize),
          SetCursor, SetSelection, Draw, SwapBuffers]\<rparr>"
  using assms by (auto simp: renderThread_def render_pass_def Let_def)

theorem C1_witness:
  "renderThread (example_frame 0) False 80 24 (example_renderer 4 5) =
     (example_renderer 4 5)\<lparr>thr := Waiting (example_frame 5) True,
        calls := [Resize 800 600, GetMapping, DeltaCopyCells, SetDeltaFrame True,
                  SetCursor, SetSelection, Draw, SwapBuffers]\<rparr> \<and>
   renderThread (example_frame 0) True 80 24 (example_renderer 4 5) =
     (example_renderer 4 5)\<lparr>thr := Waiting (example_frame 5) False,
        calls := [Resize 800 600, GetMapping, CopyCells, SetDeltaFrame False,
                  SetCursor, SetSelection, Draw, SwapBuffers]\<rparr> \<and>
   renderThread (example_frame 0) False 80 24 (example_renderer 3 5) =
     (example_renderer 3 5)\<lparr>thr := Waiting (example_frame 5) False,
        calls := [Resize 800 600, GetMapping, CopyCells, SetDeltaFrame False,
                  SetCursor, SetSelection, Draw, SwapBuffers]\<rparr>"
proof -
  have h1: "thr (example_renderer l 5) = Waiting (example_frame l) False" for l
    by (simp add: example_renderer_def)
  have h2: "seqNo (example_frame 4) \<noteq> seqNo (nextFrame (example_renderer 4 5))"
    and h2': "seqNo (example_frame 3) \<noteq> seqNo (nextFrame (example_renderer 3 5))"
    by (simp_all add: example_renderer_def example_frame_def)
  have h3: "\<not> done_flag (example_renderer l 5)" for l
    by (simp add: example_renderer_def)
  have h4: "80 = nCols (nextFrame (example_renderer l 5))"
    and h5: "24 = nRows (nextFrame (example_renderer l 5))" for l
    by (simp_all add: example_renderer_def example_frame_def)
  show ?thesis
    using C1_delta_iff_adjacent_and_no_resize [OF h1 h2 h3 h4 h5, of "example_frame 0" False]
      C1_delta_iff_adjacent_and_no_resize [OF h1 h2 h3 h4 h5, of "example_frame 0" True]
      C1_delta_iff_adjacent_and_no_resize [OF h1 h2' h3 h4 h5, of "example_frame 0" False]
    by (simp add: example_renderer_def example_frame_def)
qed

subsection \<open>Sequence numbers\<close>

lemma exec_rseqNo:
  "rseqNo (exec frame0 e r) = (if is_submission e then rseqNo r + 1 else rseqNo r)"
  by (cases e) (auto simp: update_def destroy_def renderThread_def render_pass_def Let_def
      split: thread.splits prod.splits)

lemma exec_stored:
  "is_submission e \<Longrightarrow> seqNo (nextFrame (exec frame0 e r)) = rseqNo r + 1"
  by (cases e) (auto simp: update_def destroy_def Let_def)

lemma upt_shift: "[1..<Suc (Suc n)] = 1 # map Suc [1..<Suc n]"
  by (simp add: upt_conv_Cons map_Suc_upt del: upt_Suc)

lemma stored_seqNos_eq:
  "stored_seqNos frame0 evs r =
     map (\<lambda>k. rseqNo r + of_nat k) [1..<Suc (length (filter is_submission evs))]"
proof (induction evs arbitrary: r)
  case Nil
  then show ?case by simp
next
  case (Cons e evs)
  show ?case
  proof (cases "is_submission e")
    case True
    have "stored_seqNos frame0 (e # evs) r =
        (rseqNo r + 1) #
        map (\<lambda>k. rseqNo r + 1 + of_nat k) [1..<Suc (length (filter is_submission evs))]"
      using True by (simp add: Cons.IH exec_stored exec_rseqNo del: upt_Suc)
    also have "\<dots> =
        map (\<lambda>k. rseqNo r + of_nat k) [1..<Suc (Suc (length (filter is_submission evs)))]"
      by (simp only: upt_shift list.map map_map o_def) (simp add: add.assoc del: upt_Suc)
    finally show ?thesis using True by simp
  next
    case False
    then show ?thesis by (simp add: Cons.IH exec_rseqNo del: upt_Suc)
  qed
qed

lemma unat_plus_small:
  fixes x :: "'a::len word"
  assumes "unat x + k < 2 ^ LENGTH('a)"
  shows "unat (x + of_nat k) = unat x + k"
proof -
  have "k < 2 ^ LENGTH('a)" using assms by simp
  then have "unat (of_nat k :: 'a word) = k" by (simp add: unat_of_nat)
  then show ?thesis using assms by (simp add: unat_add_lem [THEN iffD1])
qed

lemma map_unat_run:
  fixes x :: "'a::len word"
  assumes "unat x + n < 2 ^ LENGTH('a)"
  shows "map unat (map (\<lambda>k. x + of_nat k) [1..<Suc n]) = [unat x + 1..<unat x + Suc n]"
proof -
  have "map unat (map (\<lambda>k. x + of_nat k) [1..<Suc n]) = map (\<lambda>k. unat x + k) [1..<Suc n]"
    using assms by (auto simp: unat_plus_small simp del: upt_Suc)
  also have "\<dots> = [unat x + 1..<unat x + Suc n]"
    by (induction n) simp_all
  finally show ?thesis .
qed

text \<open>Unless the frame rendered before carries the largest value of the counter, the
  test of line 69 is the test on the numbers: the new one is the old one plus one.\<close>

lemma adjacent_as_numbers:
  fixes x y :: "'a::len word"
  assumes "x \<noteq> - 1"
  shows "x + 1 = y \<longleftrightarrow> unat y = unat x + 1"
proof -
  have m: "unat (- 1 :: 'a word) = 2 ^ LENGTH('a) - 1"
    by (simp add: unsigned_minus_1_eq_mask mask_eq_exp_minus_1)
  have "unat x \<noteq> unat (- 1 :: 'a word)"
    using assms by (simp add: word_unat_eq_iff)
  moreover have "unat x < 2 ^ LENGTH('a)" by simp
  ultimately have "unat x + 1 < 2 ^ LENGTH('a)"
    unfolding m by arith
  then have u: "unat (x + 1) = unat x + 1"
    using unat_plus_small [of x 1] by simp
  show ?thesis
  proof
    assume "x + 1 = y"
    then show "unat y = unat x + 1" using u by simp
  next
    assume "unat y = unat x + 1"
    then have "unat y = unat (x + 1)" using u by simp
    then show "x + 1 = y" by (simp add: word_unat_eq_iff)
  qed
qed

text \<open>
  C2.  Take any run of submissions (with turns of the render thread anywhere between
  them) and the destructor after it.  The sequence numbers stored in the slot, that of
  the destructor included, are the counter's value before the run plus 1, plus 2, and so
  on: each is the one before it plus one, in the arithmetic of the counter.  As long as
  the run does not exhaust the range of the counter, they are, as numbers, the consecutive
  ones that follow its first value: strictly increasing, in steps of exactly one.
\<close>

theorem C2_sequence_numbers_step_by_one:
  fixes r :: "('a::len word, 'c) Renderer"
  shows "stored_seqNos frame0 (evs @ [Destroy]) r =
           map (\<lambda>k. rseqNo r + of_nat k) [1..<length (filter is_submission evs) + 2] \<and>
         (unat (rseqNo r) + length (filter is_submission evs) + 1 < 2 ^ LENGTH('a) \<longrightarrow>
            map unat (stored_seqNos frame0 (evs @ [Destroy]) r) =
              [unat (rseqNo r) + 1..<unat (rseqNo r) + length (filter is_submission evs) + 2])"
proof -
  have n: "length (filter is_submission (evs @ [Destroy])) =
      length (filter is_submission evs) + 1"
    by simp
  have eq: "stored_seqNos frame0 (evs @ [Destroy]) r =
      map (\<lambda>k. rseqNo r + of_nat k) [1..<Suc (length (filter is_submission evs) + 1)]"
    by (simp only: stored_seqNos_eq n)
  show ?thesis
    using map_unat_run [of "rseqNo r" "length (filter is_submission evs) + 1"]
    by (simp add: eq del: upt_Suc)
qed

theorem C2_witness:
  "unat (0 :: 64 word) + length (filter is_submission
      [Update (example_frame 0), Turn False 80 24, Update (example_frame 0)]) + 1
     < 2 ^ LENGTH(64) \<and>
   map unat (stored_seqNos (example_frame 0)
      ([Update (example_frame 0), Turn False 80 24, Update (example_frame 0)] @ [Destroy])
      (Renderer_Renderer (example_frame 0) 0)) = [1, 2, 3]"
proof -
  have h: "unat (rseqNo (Renderer_Renderer (example_frame 0) 0)) + length (filter is_submission
      [Update (example_frame 0), Turn False 80 24, Update (example_frame 0)]) + 1
     < 2 ^ LENGTH(64)"
    by (simp add: Renderer_Renderer_def)
  have l: "[Suc 0..<4] = [1, 2, 3]"
    by (simp add: upt_conv_Cons)
  show ?thesis
    using h C2_sequence_numbers_step_by_one [of "example_frame 0"
        "[Update (example_frame 0), Turn False 80 24, Update (example_frame 0)]"
        "Renderer_Renderer (example_frame 0) 0", THEN conjunct2, THEN mp, OF h]
    by (simp add: Renderer_Renderer_def l)
qed

subsection \<open>Nothing is drawn before the first submission\<close>

lemma idle_init: "idle frame0 (Renderer_Renderer frame0 seq0)"
  by (simp add: idle_def Renderer_Renderer_def)

lemma exec_idle:
  assumes "idle frame0 r" and "\<not> is_Update e"
  shows "idle frame0 (exec frame0 e r)"
proof (cases e)
  case (Update f)
  then show ?thesis using assms by simp
next
  case Destroy
  then show ?thesis using assms by (auto simp: idle_def destroy_def Let_def)
next
  case (Turn d mc mr)
  then show ?thesis using assms
    by (auto simp: idle_def renderThread_def split: thread.splits)
qed

lemma run_idle:
  "idle frame0 r \<Longrightarrow> \<forall>e\<in>set evs. \<not> is_Update e \<Longrightarrow> idle frame0 (run frame0 evs r)"
  by (induction evs arbitrary: r) (simp_all add: exec_idle)

lemma run_blocked:
  assumes "\<forall>e\<in>set evs. \<not> is_submission e"
    and "r = Renderer_Renderer frame0 seq0 \<or>
         r = (Renderer_Renderer frame0 seq0)\<lparr>thr := Waiting frame0 False,
                calls := [InitDisplay, NewCharVdev]\<rparr>"
  shows "run frame0 evs r = Renderer_Renderer frame0 seq0 \<or>
         run frame0 evs r = (Renderer_Renderer frame0 seq0)\<lparr>thr := Waiting frame0 False,
                calls := [InitDisplay, NewCharVdev]\<rparr>"
  using assms
proof (induction evs arbitrary: r)
  case Nil
  then show ?case by simp
next
  case (Cons e evs)
  from Cons.prems(1) obtain d mc mr where e: "e = Turn d mc mr"
    by (cases e) auto
  have "exec frame0 e r = (Renderer_Renderer frame0 seq0)\<lparr>thr := Waiting frame0 False,
                calls := [InitDisplay, NewCharVdev]\<rparr>"
    using Cons.prems(2) by (auto simp: e renderThread_def Renderer_Renderer_def)
  then show ?case using Cons.IH [of "exec frame0 e r"] Cons.prems(1) by simp
qed

text \<open>
  C10.  From the construction of the renderer on, whatever turns the render thread takes:
  as long as no \<open>update\<close> has been called, the thread has called neither \<open>draw\<close> nor
  \<open>swapBuffers\<close> (not even when the destructor has run in between); and as long as
  neither \<open>update\<close> nor the destructor has been called, the renderer is as constructed or
  the thread has done its initialisation and nothing else, waiting with a \<open>lastFrame\<close>
  whose sequence number is the one in the slot, so that the predicate of its wait is
  false.
\<close>

theorem C10_blocked_until_first_submission:
  "((\<forall>e\<in>set evs. \<not> is_Update e) \<longrightarrow>
      Draw \<notin> set (calls (run frame0 evs (Renderer_Renderer frame0 seq0))) \<and>
      SwapBuffers \<notin> set (calls (run frame0 evs (Renderer_Renderer frame0 seq0)))) \<and>
   ((\<forall>e\<in>set evs. \<not> is_submission e) \<longrightarrow>
      run frame0 evs (Renderer_Renderer frame0 seq0) = Renderer_Renderer frame0 seq0 \<or>
      run frame0 evs (Renderer_Renderer frame0 seq0) =
        (Renderer_Renderer frame0 seq0)\<lparr>thr := Waiting frame0 False,
           calls := [InitDisplay, NewCharVdev]\<rparr>)"
  using run_idle [OF idle_init, of evs frame0 seq0] run_blocked [of evs _ frame0 seq0]
  by (auto simp: idle_def)

theorem C10_witness:
  "run (example_frame 0) [Turn False 80 24, Turn True 80 24]
       (Renderer_Renderer (example_frame 0) 0) =
     (Renderer_Renderer (example_frame 0) 0)\<lparr>thr := Waiting (example_frame 0) False,
        calls := [InitDisplay, NewCharVdev]\<rparr> \<and>
   Draw \<notin> set (calls (run (example_frame 0) [Turn False 80 24, Destroy, Turn True 80 24]
       (Renderer_Renderer (example_frame 0) 0))) \<and>
   thr (run (example_frame 0) [Turn False 80 24, Destroy, Turn True 80 24]
       (Renderer_Renderer (example_frame 0) 0)) = Returned"
proof -
  have h1: "\<forall>e\<in>set [Turn False 80 24, Turn True 80 24 :: (64 word, unit) event].
      \<not> is_submission e"
    by simp
  have h2: "\<forall>e\<in>set [Turn False 80 24, Destroy, Turn True 80 24 :: (64 word, unit) event].
      \<not> is_Update e"
    by simp
  show ?thesis
    using
      C10_blocked_until_first_submission [of "[Turn False 80 24, Turn True 80 24]"
        "example_frame 0" 0, THEN conjunct2, THEN mp, OF h1]
      C10_blocked_until_first_submission [of "[Turn False 80 24, Destroy, Turn True 80 24]"
        "example_frame 0" 0, THEN conjunct1, THEN mp, OF h2]
    by (simp add: Renderer_Renderer_def renderThread_def destroy_def example_frame_def)
qed

text \<open>The first submission ends the wait: the next turn of the thread is a render
  pass on the submitted frame.\<close>

lemma first_update_is_drawn:
  assumes "seqNo frame0 \<noteq> seq0 + 1"
  shows "calls (run frame0 [Turn d c r, Update f, Turn d' (nCols f) (nRows f)]
            (Renderer_Renderer frame0 seq0)) =
         [InitDisplay, NewCharVdev, Resize (winPx f) (winPy f), GetMapping,
          if seqNo frame0 = seq0 \<and> \<not> d' then DeltaCopyCells else CopyCells,
          SetDeltaFrame (seqNo frame0 = seq0 \<and> \<not> d'),
          SetCursor, SetSelection, Draw, SwapBuffers]"
  using assms
  by (simp add: Renderer_Renderer_def renderThread_def update_def render_pass_def Let_def)

section \<open>Properties of the font search\<close>

lemmas filter_defs = fontFileFilter_def match_file_def find_ext_def strcasecmp_eq_def
  strncasecmp_eq_def tolower_def skip_separator_def ptrdiff_size_t_def classify_def
  saveCandidate_def

lemmas walk_defs = Fontpack_Fontpack_def nftw_def root_base_def sstate_init_def opt_font_def

subsection \<open>Extensions\<close>

lemma tolower_letters:
  "tolower CHR ''A'' = CHR ''a''" "tolower CHR ''B'' = CHR ''b''" "tolower CHR ''C'' = CHR ''c''"
  "tolower CHR ''D'' = CHR ''d''" "tolower CHR ''E'' = CHR ''e''" "tolower CHR ''F'' = CHR ''f''"
  "tolower CHR ''G'' = CHR ''g''" "tolower CHR ''H'' = CHR ''h''" "tolower CHR ''I'' = CHR ''i''"
  "tolower CHR ''J'' = CHR ''j''" "tolower CHR ''K'' = CHR ''k''" "tolower CHR ''L'' = CHR ''l''"
  "tolower CHR ''M'' = CHR ''m''" "tolower CHR ''N'' = CHR ''n''" "tolower CHR ''O'' = CHR ''o''"
  "tolower CHR ''P'' = CHR ''p''" "tolower CHR ''Q'' = CHR ''q''" "tolower CHR ''R'' = CHR ''r''"
  "tolower CHR ''S'' = CHR ''s''" "tolower CHR ''T'' = CHR ''t''" "tolower CHR ''U'' = CHR ''u''"
  "tolower CHR ''V'' = CHR ''v''" "tolower CHR ''W'' = CHR ''w''" "tolower CHR ''X'' = CHR ''x''"
  "tolower CHR ''Y'' = CHR ''y''" "tolower CHR ''Z'' = CHR ''z''" "tolower CHR ''a'' = CHR ''a''"
  "tolower CHR ''b'' = CHR ''b''" "tolower CHR ''c'' = CHR ''c''" "tolower CHR ''d'' = CHR ''d''"
  "tolower CHR ''e'' = CHR ''e''" "tolower CHR ''f'' = CHR ''f''" "tolower CHR ''g'' = CHR ''g''"
  "tolower CHR ''h'' = CHR ''h''" "tolower CHR ''i'' = CHR ''i''" "tolower CHR ''j'' = CHR ''j''"
  "tolower CHR ''k'' = CHR ''k''" "tolower CHR ''l'' = CHR ''l''" "tolower CHR ''m'' = CHR ''m''"
  "tolower CHR ''n'' = CHR ''n''" "tolower CHR ''o'' = CHR ''o''" "tolower CHR ''p'' = CHR ''p''"
  "tolower CHR ''q'' = CHR ''q''" "tolower CHR ''r'' = CHR ''r''" "tolower CHR ''s'' = CHR ''s''"
  "tolower CHR ''t'' = CHR ''t''" "tolower CHR ''u'' = CHR ''u''" "tolower CHR ''v'' = CHR ''v''"
  "tolower CHR ''w'' = CHR ''w''" "tolower CHR ''x'' = CHR ''x''" "tolower CHR ''y'' = CHR ''y''"
  "tolower CHR ''z'' = CHR ''z''" "tolower CHR ''.'' = CHR ''.''"
  by (simp_all add: tolower_def)

lemma tolower_dot: "tolower c = CHR ''.'' \<longleftrightarrow> c = CHR ''.''"
  by (auto simp: tolower_def split: if_splits)

lemma strrchr_None: "c \<notin> set ys \<Longrightarrow> strrchr ys c = None"
  by (induction ys) auto

lemma strrchr_last: "c \<notin> set ys \<Longrightarrow> strrchr (xs @ c # ys) c = Some (length xs)"
  by (induction xs) (auto simp: strrchr_None)

text \<open>An accepted extension is a dot and three bytes without a dot, or \<open>.pcf.gz\<close> up to
  case.\<close>

lemma accepted_shape:
  assumes "accepted_ext e"
  shows "(\<exists>a b c. e = [CHR ''.'', a, b, c] \<and> a \<noteq> CHR ''.'' \<and> b \<noteq> CHR ''.'' \<and> c \<noteq> CHR ''.'') \<or>
         (\<exists>p c f g z. e = [CHR ''.'', p, c, f, CHR ''.'', g, z] \<and> p \<noteq> CHR ''.'' \<and>
             c \<noteq> CHR ''.'' \<and> f \<noteq> CHR ''.'' \<and> g \<noteq> CHR ''.'' \<and> z \<noteq> CHR ''.'' \<and>
             strcasecmp_eq [CHR ''.'', g, z] ''.gz'')"
  using assms
  by (auto simp: accepted_ext_def strcasecmp_eq_def map_eq_Cons_conv tolower_dot
      tolower_letters)

lemma gz_length: "strcasecmp_eq e ''.gz'' \<Longrightarrow> length e = 3"
  by (auto simp: strcasecmp_eq_def map_eq_Cons_conv)

lemma find_ext_short:
  assumes "a \<noteq> CHR ''.''" "b \<noteq> CHR ''.''" "c \<noteq> CHR ''.''"
    and "accepted_ext [CHR ''.'', a, b, c]"
  shows "find_ext (pre @ [CHR ''.'', a, b, c]) = Some (length pre)"
proof -
  have s: "strrchr (pre @ [CHR ''.'', a, b, c]) (CHR ''.'') = Some (length pre)"
    using assms(1-3) by (intro strrchr_last) auto
  have g: "\<not> strcasecmp_eq [CHR ''.'', a, b, c] ''.gz''"
    using gz_length by fastforce
  show ?thesis
    using assms(4) by (simp add: find_ext_def s g accepted_ext_def)
qed

lemma back_to_dot_step:
  "0 < e \<Longrightarrow> fname ! e \<noteq> CHR ''.'' \<Longrightarrow> back_to_dot fname (Suc e) = back_to_dot fname e"
  by simp

lemma back_to_dot_stop: "fname ! e = CHR ''.'' \<Longrightarrow> back_to_dot fname (Suc e) = e"
  by simp

lemma find_ext_long:
  assumes "p \<noteq> CHR ''.''" "c \<noteq> CHR ''.''" "f \<noteq> CHR ''.''" "g \<noteq> CHR ''.''" "z \<noteq> CHR ''.''"
    and "strcasecmp_eq [CHR ''.'', g, z] ''.gz''"
    and "accepted_ext [CHR ''.'', p, c, f, CHR ''.'', g, z]"
  shows "find_ext (pre @ [CHR ''.'', p, c, f, CHR ''.'', g, z]) = Some (length pre)"
proof -
  let ?n = "pre @ [CHR ''.'', p, c, f, CHR ''.'', g, z]"
  have "strrchr ((pre @ [CHR ''.'', p, c, f]) @ CHR ''.'' # [g, z]) (CHR ''.'') =
      Some (length (pre @ [CHR ''.'', p, c, f]))"
    using assms(4,5) by (intro strrchr_last) auto
  then have s: "strrchr ?n (CHR ''.'') = Some (length pre + 4)" by simp
  have d: "drop (length pre + 4) ?n = [CHR ''.'', g, z]" by simp
  have i4: "length pre + 4 = Suc (length pre + 3)"
    and i3: "length pre + 3 = Suc (length pre + 2)"
    and i2: "length pre + 2 = Suc (length pre + 1)"
    and i1: "length pre + 1 = Suc (length pre)"
    by simp_all
  have "back_to_dot ?n (length pre + 4) = back_to_dot ?n (length pre + 3)"
    unfolding i4 using assms(3) by (intro back_to_dot_step) (simp_all add: nth_append)
  also have "\<dots> = back_to_dot ?n (length pre + 2)"
    unfolding i3 using assms(2) by (intro back_to_dot_step) (simp_all add: nth_append)
  also have "\<dots> = back_to_dot ?n (length pre + 1)"
    unfolding i2 using assms(1) by (intro back_to_dot_step) (simp_all add: nth_append)
  also have "\<dots> = length pre"
    unfolding i1 by (intro back_to_dot_stop) (simp add: nth_append)
  finally have b: "back_to_dot ?n (length pre + 4) = length pre" .
  have d0: "drop (length pre) ?n = [CHR ''.'', p, c, f, CHR ''.'', g, z]" by simp
  have c: "(if strcasecmp_eq (drop (length pre + 4) ?n) ''.gz'' \<and> length pre + 4 > 0
            then back_to_dot ?n (length pre + 4) else length pre + 4) = length pre"
    by (simp only: d assms(6) b) simp
  show ?thesis
    unfolding find_ext_def s option.case c Let_def d0
    using assms(7) by (simp add: accepted_ext_def)
qed

text \<open>The filter by extension lets a file pass exactly when its name ends in one of the
  three extensions up to case, and \<open>ext\<close> then points at that ending.\<close>

lemma find_ext_iff:
  "find_ext fname = Some i \<longleftrightarrow> i \<le> length fname \<and> accepted_ext (drop i fname)"
proof
  assume f: "find_ext fname = Some i"
  then have a: "accepted_ext (drop i fname)"
    by (auto simp: find_ext_def accepted_ext_def Let_def split: option.splits if_splits)
  then have "drop i fname \<noteq> []"
    by (auto simp: accepted_ext_def strcasecmp_eq_def)
  then show "i \<le> length fname \<and> accepted_ext (drop i fname)" using a by simp
next
  assume h: "i \<le> length fname \<and> accepted_ext (drop i fname)"
  have n: "fname = take i fname @ drop i fname" by simp
  have l: "length (take i fname) = i" using h by simp
  from accepted_shape [of "drop i fname"] h
  consider a b c where "drop i fname = [CHR ''.'', a, b, c]"
      "a \<noteq> CHR ''.''" "b \<noteq> CHR ''.''" "c \<noteq> CHR ''.''"
    | p c f g z where "drop i fname = [CHR ''.'', p, c, f, CHR ''.'', g, z]" "p \<noteq> CHR ''.''"
        "c \<noteq> CHR ''.''" "f \<noteq> CHR ''.''" "g \<noteq> CHR ''.''" "z \<noteq> CHR ''.''"
        "strcasecmp_eq [CHR ''.'', g, z] ''.gz''"
    by blast
  then show "find_ext fname = Some i"
  proof cases
    case 1
    then have "find_ext (take i fname @ [CHR ''.'', a, b, c]) = Some (length (take i fname))"
      using h by (intro find_ext_short) auto
    then show ?thesis using n l 1(1) by metis
  next
    case 2
    then have "find_ext (take i fname @ [CHR ''.'', p, c, f, CHR ''.'', g, z]) =
        Some (length (take i fname))"
      using h by (intro find_ext_long) auto
    then show ?thesis using n l 2(1) by metis
  qed
qed

lemma final_dot_suffix_append:
  assumes "CHR ''.'' \<notin> set ys"
  shows "final_dot_suffix (pre @ CHR ''.'' # ys) = Some (CHR ''.'' # ys)"
proof -
  have "takeWhile (\<lambda>c. c \<noteq> CHR ''.'') (rev ys @ CHR ''.'' # rev pre) = rev ys"
    using assms by (subst takeWhile_append2) auto
  then show ?thesis by (simp add: final_dot_suffix_def)
qed

lemma final_dot_suffix_SomeD:
  assumes "final_dot_suffix s = Some e"
  shows "\<exists>pre ys. s = pre @ e \<and> e = CHR ''.'' # ys \<and> CHR ''.'' \<notin> set ys"
proof -
  from assms have "CHR ''.'' \<in> set s"
    by (auto simp: final_dot_suffix_def split: if_splits)
  then obtain pre ys where s: "s = pre @ CHR ''.'' # ys" and n: "CHR ''.'' \<notin> set ys"
    by (meson split_list_last)
  with assms have "e = CHR ''.'' # ys"
    by (simp add: final_dot_suffix_append)
  with s n show ?thesis by blast
qed

lemma spec_extension_suffix:
  assumes "spec_extension fname = Some e"
  shows "\<exists>pre. fname = pre @ e"
proof -
  from assms obtain e1 where f1: "final_dot_suffix fname = Some e1"
    by (auto simp: spec_extension_def split: option.splits)
  then obtain p1 where p1: "fname = p1 @ e1"
    using final_dot_suffix_SomeD by blast
  then have t: "take (length fname - length e1) fname = p1" by simp
  show ?thesis
  proof (cases "strcasecmp_eq e1 ''.gz''")
    case False
    then have "e = e1" using assms f1 by (simp add: spec_extension_def)
    then show ?thesis using p1 by blast
  next
    case True
    show ?thesis
    proof (cases "final_dot_suffix p1")
      case None
      then have "e = e1" using assms f1 True t by (simp add: spec_extension_def)
      then show ?thesis using p1 by blast
    next
      case (Some p)
      then have e: "e = p @ e1" using assms f1 True t by (simp add: spec_extension_def)
      from Some obtain p0 where "p1 = p0 @ p" using final_dot_suffix_SomeD by blast
      then have "fname = p0 @ e" using p1 e by simp
      then show ?thesis by blast
    qed
  qed
qed

lemma spec_extension_short:
  assumes "a \<noteq> CHR ''.''" "b \<noteq> CHR ''.''" "c \<noteq> CHR ''.''"
  shows "spec_extension (pre @ [CHR ''.'', a, b, c]) = Some [CHR ''.'', a, b, c]"
proof -
  have f: "final_dot_suffix (pre @ CHR ''.'' # [a, b, c]) = Some (CHR ''.'' # [a, b, c])"
    using assms by (intro final_dot_suffix_append) auto
  have g: "\<not> strcasecmp_eq [CHR ''.'', a, b, c] ''.gz''"
    using gz_length by fastforce
  show ?thesis using f g by (simp add: spec_extension_def)
qed

lemma spec_extension_long:
  assumes "p \<noteq> CHR ''.''" "c \<noteq> CHR ''.''" "f \<noteq> CHR ''.''" "g \<noteq> CHR ''.''" "z \<noteq> CHR ''.''"
    and "strcasecmp_eq [CHR ''.'', g, z] ''.gz''"
  shows "spec_extension (pre @ [CHR ''.'', p, c, f, CHR ''.'', g, z]) =
           Some [CHR ''.'', p, c, f, CHR ''.'', g, z]"
proof -
  let ?n = "pre @ [CHR ''.'', p, c, f, CHR ''.'', g, z]"
  have "final_dot_suffix ((pre @ [CHR ''.'', p, c, f]) @ CHR ''.'' # [g, z]) =
      Some (CHR ''.'' # [g, z])"
    using assms(4,5) by (intro final_dot_suffix_append) auto
  then have f1: "final_dot_suffix ?n = Some [CHR ''.'', g, z]" by simp
  have t: "take (length ?n - length [CHR ''.'', g, z]) ?n = pre @ [CHR ''.'', p, c, f]"
    by simp
  have f2: "final_dot_suffix (pre @ CHR ''.'' # [p, c, f]) = Some (CHR ''.'' # [p, c, f])"
    using assms(1-3) by (intro final_dot_suffix_append) auto
  show ?thesis
    unfolding spec_extension_def f1 option.case t
    using assms(6) f2 by simp
qed

lemma spec_extension_accepted:
  assumes "accepted_ext e"
  shows "spec_extension (pre @ e) = Some e"
  using accepted_shape [OF assms] spec_extension_short spec_extension_long by fastforce

text \<open>
  C9.  For every file name, the extension at which the filter lets the file pass is the
  extension in the words of the spec (the final dot-delimited suffix, a trailing \<open>.gz\<close>
  merged with the suffix before it) whenever that one is \<open>.ttf\<close>, \<open>.otf\<close> or
  \<open>.pcf.gz\<close> up to case, and the filter rejects the file in every other case.
\<close>

theorem C9_extension_filter:
  "map_option (\<lambda>i. drop i fname) (find_ext fname) =
     (case spec_extension fname of
        None \<Rightarrow> None
      | Some e \<Rightarrow> if accepted_ext e then Some e else None)"
proof (cases "find_ext fname")
  case (Some i)
  then have a: "accepted_ext (drop i fname)" by (simp add: find_ext_iff)
  have "spec_extension (take i fname @ drop i fname) = Some (drop i fname)"
    using a by (rule spec_extension_accepted)
  then show ?thesis using Some a by simp
next
  case None
  have "\<not> accepted_ext e" if "spec_extension fname = Some e" for e
  proof
    assume a: "accepted_ext e"
    from that obtain pre where "fname = pre @ e" using spec_extension_suffix by blast
    then have "find_ext fname = Some (length pre)" using a by (simp add: find_ext_iff)
    with None show False by simp
  qed
  then show ?thesis using None by (auto split: option.splits)
qed

text \<open>Scenario D of the spec.\<close>

lemma scenario_D:
  "map_option (\<lambda>i. drop i ''Go-Regular.pcf.gz'') (find_ext ''Go-Regular.pcf.gz'') =
     Some ''.pcf.gz''"
  by (simp add: find_ext_def strcasecmp_eq_def tolower_def)

subsection \<open>The lexicon\<close>

text \<open>Each word of the lexicon, met in full and in any case, is taken for its variant,
  and so is the empty \<open>mid\<close> for Regular.\<close>

lemma classify_lexicon:
  assumes "(w, v) \<in> set lexicon" and "strncasecmp_eq mid w (length w)"
  shows "classify mid (length w) = Some v"
proof -
  have t: "map tolower (take (length w) mid) = map tolower w"
    using assms(2) by (simp add: strncasecmp_eq_def)
  from assms(1) have "(w, v) \<in> set lexicon" .
  then show ?thesis
    unfolding lexicon_def set_simps insert_iff empty_iff prod.inject
    using t
    by (elim disjE conjE; simp add: classify_def strncasecmp_eq_def tolower_letters)
qed

lemma classify_empty: "classify mid 0 = Some Regular"
  by (simp add: classify_def)

text \<open>\<open>strncasecmp\<close> is handed \<open>midlen\<close> as its bound, and the length of the word is
  not compared with it: a \<open>mid\<close> that is a beginning of \<open>Regular\<close> is taken for
  Regular just as the whole word is.\<close>

lemma classify_beginning_of_Regular:
  assumes "0 < n" and "map tolower (take n mid) = take n ''regular''"
  shows "classify mid n = Some Regular"
proof -
  have "map tolower (take n ''Regular'') = take n (map tolower ''Regular'')"
    by (simp only: take_map)
  also have "\<dots> = take n ''regular''"
    by (simp add: tolower_letters)
  finally have "strncasecmp_eq mid ''Regular'' n"
    using assms(2) by (simp only: strncasecmp_eq_def)
  then show ?thesis by (simp add: classify_def)
qed

text \<open>
  C7.  The file \<open>fonts/Go-Reg.ttf\<close>, met at depth 1 while the family \<open>Go\<close> is searched
  and nothing has been recorded yet, passes the filters by extension and by name; its
  \<open>mid\<close> is \<open>Reg\<close>, which is none of the words of the lexicon, and the file is not passed
  over: it is recorded as the Regular candidate.
\<close>

theorem C7_beginning_of_word_is_taken:
  "fontFileFilter ''fonts/Go-Reg.ttf'' FTW_F \<lparr>base = 6, ftw_level = 1\<rparr>
     (sstate_init\<lparr>fontname := ''Go'', fontnamelen := 2\<rparr>) =
   (0, sstate_init\<lparr>fontname := ''Go'', fontnamelen := 2, level := 1, ext := ''.ttf'',
         regular := ''fonts/Go-Reg.ttf''\<rparr>)"
  by (simp add: sstate_init_def filter_defs)

subsection \<open>Recording a candidate\<close>

text \<open>
  C6.  When a candidate is about to be recorded: if an extension is committed already (by
  a candidate of whatever variant) and the extension of the new candidate is another
  string, the candidate is rejected with the result 1 and the search state stays as it
  is; otherwise the result is 0, the path is stored for the variant of the candidate in
  place of what was there, its extension and depth become the committed ones, and the
  candidates of the other variants and the family name stay as they are.
\<close>

theorem C6_saveCandidate:
  "(ext s \<noteq> [] \<and> ext s \<noteq> e \<longrightarrow> saveCandidate fpath e l v s = (1, s)) \<and>
   (ext s = [] \<or> ext s = e \<longrightarrow>
      fst (saveCandidate fpath e l v s) = 0 \<and>
      get_dest v (snd (saveCandidate fpath e l v s)) = fpath \<and>
      ext (snd (saveCandidate fpath e l v s)) = e \<and>
      level (snd (saveCandidate fpath e l v s)) = l \<and>
      (\<forall>w. w \<noteq> v \<longrightarrow> get_dest w (snd (saveCandidate fpath e l v s)) = get_dest w s) \<and>
      fontname (snd (saveCandidate fpath e l v s)) = fontname s \<and>
      fontnamelen (snd (saveCandidate fpath e l v s)) = fontnamelen s)"
proof -
  have "get_dest w (set_dest v fpath s\<lparr>ext := e, level := l\<rparr>) =
      (if w = v then fpath else get_dest w s)" for w
    by (cases v; cases w) simp_all
  moreover have "fontname (set_dest v fpath s) = fontname s"
    "fontnamelen (set_dest v fpath s) = fontnamelen s"
    by (cases v; simp)+
  ultimately show ?thesis by (auto simp: saveCandidate_def)
qed

theorem C6_witness:
  "saveCandidate ''fonts/Go-Bold.otf'' ''.otf'' 1 Bold
     \<lparr>fontname = ''Go'', fontnamelen = 2, level = 1, ext = ''.ttf'',
       regular = ''fonts/Go-Regular.ttf'', bold = ''fonts/Go-Bold.ttf'', italic = [],
       boldItalic = []\<rparr> =
     (1, \<lparr>fontname = ''Go'', fontnamelen = 2, level = 1, ext = ''.ttf'',
       regular = ''fonts/Go-Regular.ttf'', bold = ''fonts/Go-Bold.ttf'', italic = [],
       boldItalic = []\<rparr>) \<and>
   fst (saveCandidate ''fonts/sub/Go-B.ttf'' ''.ttf'' 2 Bold
     \<lparr>fontname = ''Go'', fontnamelen = 2, level = 1, ext = ''.ttf'',
       regular = ''fonts/Go-Regular.ttf'', bold = ''fonts/Go-Bold.ttf'', italic = [],
       boldItalic = []\<rparr>) = 0 \<and>
   get_dest Bold (snd (saveCandidate ''fonts/sub/Go-B.ttf'' ''.ttf'' 2 Bold
     \<lparr>fontname = ''Go'', fontnamelen = 2, level = 1, ext = ''.ttf'',
       regular = ''fonts/Go-Regular.ttf'', bold = ''fonts/Go-Bold.ttf'', italic = [],
       boldItalic = []\<rparr>)) = ''fonts/sub/Go-B.ttf'' \<and>
   level (snd (saveCandidate ''fonts/sub/Go-B.ttf'' ''.ttf'' 2 Bold
     \<lparr>fontname = ''Go'', fontnamelen = 2, level = 1, ext = ''.ttf'',
       regular = ''fonts/Go-Regular.ttf'', bold = ''fonts/Go-Bold.ttf'', italic = [],
       boldItalic = []\<rparr>)) = 2"
proof -
  let ?s = "\<lparr>fontname = ''Go'', fontnamelen = 2, level = 1, ext = ''.ttf'',
       regular = ''fonts/Go-Regular.ttf'', bold = ''fonts/Go-Bold.ttf'', italic = [],
       boldItalic = []\<rparr>"
  have h1: "ext ?s \<noteq> [] \<and> ext ?s \<noteq> ''.otf''" by simp
  have h2: "ext ?s = [] \<or> ext ?s = ''.ttf''" by simp
  show ?thesis
    using C6_saveCandidate [of ?s "''.otf''" "''fonts/Go-Bold.otf''" 1 Bold,
        THEN conjunct1, THEN mp, OF h1]
      C6_saveCandidate [of ?s "''.ttf''" "''fonts/sub/Go-B.ttf''" 2 Bold,
        THEN conjunct2, THEN mp, OF h2]
    by simp
qed

text \<open>No Bold candidate exists, the committed extension is the \<open>.ttf\<close> of the Regular,
  and the first Bold candidate, an \<open>.otf\<close>, is rejected all the same.\<close>

theorem C6_counterexample:
  "get_dest Bold \<lparr>fontname = ''Go'', fontnamelen = 2, level = 1, ext = ''.ttf'',
       regular = ''fonts/Go-Regular.ttf'', bold = [], italic = [], boldItalic = []\<rparr> = [] \<and>
   saveCandidate ''fonts/Go-Bold.otf'' ''.otf'' 1 Bold
     \<lparr>fontname = ''Go'', fontnamelen = 2, level = 1, ext = ''.ttf'',
       regular = ''fonts/Go-Regular.ttf'', bold = [], italic = [], boldItalic = []\<rparr> =
     (1, \<lparr>fontname = ''Go'', fontnamelen = 2, level = 1, ext = ''.ttf'',
       regular = ''fonts/Go-Regular.ttf'', bold = [], italic = [], boldItalic = []\<rparr>)"
  by (simp add: saveCandidate_def)

subsection \<open>The walk and the directories\<close>

text \<open>What the filter does with a directory: with \<open>FTW_D\<close> it stops or clears, as the
  comments of lines 60-61 and 67-68 say; with \<open>FTW_DP\<close> it does nothing.  It returns
  another value than 0 for \<open>FTW_D\<close> only.\<close>

lemma fontFileFilter_FTW_D_stops:
  "level s > 0 \<Longrightarrow> ftw_level ftwbuf = level s - 1 \<Longrightarrow> regular s \<noteq> [] \<Longrightarrow>
     fontFileFilter fpath FTW_D ftwbuf s = (1, s)"
  by (simp add: fontFileFilter_def)

lemma fontFileFilter_FTW_D_clears:
  "level s > 0 \<Longrightarrow> regular s = [] \<Longrightarrow>
     fontFileFilter fpath FTW_D ftwbuf s =
       (0, s\<lparr>level := 0, ext := [], regular := [], bold := [], italic := [],
              boldItalic := []\<rparr>)"
  by (simp add: fontFileFilter_def)

lemma fontFileFilter_FTW_DP: "fontFileFilter fpath FTW_DP ftwbuf s = (0, s)"
  by (simp add: fontFileFilter_def)

lemma fontFileFilter_returns_1:
  "fst (fontFileFilter fpath t ftwbuf s) \<noteq> 0 \<Longrightarrow>
     t = FTW_D \<and> fontFileFilter fpath t ftwbuf s = (1, s) \<and> level s > 0 \<and>
     ftw_level ftwbuf = level s - 1 \<and> regular s \<noteq> []"
  by (auto simp: fontFileFilter_def Let_def split: if_splits option.splits prod.splits)

lemma fontFileFilter_not_D:
  "t \<noteq> FTW_D \<Longrightarrow> fst (fontFileFilter fpath t ftwbuf s) = 0"
  using fontFileFilter_returns_1 by blast

text \<open>The walk that \<open>Fontpack\<close> starts, with \<open>FTW_DEPTH\<close>, is never stopped by the
  filter: it runs to its end or fails.\<close>

lemma walk_never_stopped:
  "fst (nftw_obj fontFileFilter True fpath b l obj s) = 0 \<or>
   fst (nftw_obj fontFileFilter True fpath b l obj s) = - 1"
  "fst (nftw_entries fontFileFilter True dir l es s) = 0 \<or>
   fst (nftw_entries fontFileFilter True dir l es s) = - 1"
proof (induction fontFileFilter True fpath b l obj s and fontFileFilter True dir l es s
    rule: nftw_obj_nftw_entries.induct)
  case (6 fpath b l es s)
  then show ?case
    by (auto simp: fontFileFilter_not_D split: prod.splits)
next
  case (8 dir l e es s)
  then show ?case by (auto split: prod.splits)
qed (simp_all add: fontFileFilter_not_D)

text \<open>With \<open>FTW_DEPTH\<close> no callback is ever handed \<open>FTW_D\<close>: two callbacks that
  differ for that flag only give the same walk.  The two tests of the filter for
  \<open>FTW_D\<close> (lines 62 and 69) are not reached in the walk of \<open>Fontpack\<close>.\<close>

lemma nftw_depth_first_no_FTW_D:
  assumes "\<And>p t f s. t \<noteq> FTW_D \<Longrightarrow> fn p t f s = fn' p t f s"
  shows "nftw_obj fn True fpath b l obj s = nftw_obj fn' True fpath b l obj s"
    and "nftw_entries fn True dir l es s = nftw_entries fn' True dir l es s"
  using assms
proof (induction fn True fpath b l obj s and fn True dir l es s
    rule: nftw_obj_nftw_entries.induct)
  case (6 fn fpath b l es s)
  then show ?case by (auto split: prod.splits)
next
  case (8 fn dir l e es s)
  then show ?case by (auto split: prod.splits)
qed simp_all

text \<open>
  C3.  In the tree with \<open>fonts/A/Go-Regular.ttf\<close> and \<open>fonts/B/Go-Regular.ttf\<close> the walk
  records the Regular of \<open>A\<close> at depth 2 and then leaves \<open>A\<close>, a directory of depth 1.
  It does not stop there: \<open>nftw\<close> returns 0, the sibling \<open>B\<close> is visited, and the Regular
  of the \<open>Fontpack\<close> is the file of \<open>B\<close>.
\<close>

theorem C3_walk_goes_on_into_sibling:
  "fst (nftw (Dir [(''A'', Dir [(''Go-Regular.ttf'', File)]),
                   (''B'', Dir [(''Go-Regular.ttf'', File)])]) ''fonts'' fontFileFilter True
             (sstate_init\<lparr>fontname := ''Go'', fontnamelen := 2\<rparr>)) = 0 \<and>
   fst (Fontpack_Fontpack
          (Dir [(''A'', Dir [(''Go-Regular.ttf'', File)]),
                (''B'', Dir [(''Go-Regular.ttf'', File)])]) ''fonts'' ''Go'' sstate_init) =
     Inr \<lparr>fontRegular = ''fonts/B/Go-Regular.ttf'', fontBold = None, fontItalic = None,
          fontBoldItalic = None\<rparr>"
  by (simp add: walk_defs filter_defs)

text \<open>
  C4.  In the tree with \<open>fonts/Partial/Foo-Bold.ttf\<close> and \<open>fonts/Other/Foo-Regular.ttf\<close>
  the walk records a Bold and no Regular under \<open>Partial\<close> and leaves that directory.
  The Bold is not discarded: the \<open>Fontpack\<close> has the Regular of \<open>Other\<close> and the Bold of
  \<open>Partial\<close>.
\<close>

theorem C4_partial_match_persists:
  "fst (Fontpack_Fontpack
          (Dir [(''Partial'', Dir [(''Foo-Bold.ttf'', File)]),
                (''Other'', Dir [(''Foo-Regular.ttf'', File)])]) ''fonts'' ''Foo'' sstate_init) =
     Inr \<lparr>fontRegular = ''fonts/Other/Foo-Regular.ttf'',
          fontBold = Some ''fonts/Partial/Foo-Bold.ttf'', fontItalic = None,
          fontBoldItalic = None\<rparr>"
  by (simp add: walk_defs filter_defs)

text \<open>Scenario A of the spec.\<close>

lemma scenario_A:
  "fst (Fontpack_Fontpack
          (Dir [(''Go'', Dir [(''Go-Regular.ttf'', File), (''Go-Bold.ttf'', File),
                              (''Go-Italic.ttf'', File), (''Go-BoldItalic.ttf'', File)])])
          ''fonts'' ''Go'' sstate_init) =
     Inr \<lparr>fontRegular = ''fonts/Go/Go-Regular.ttf'',
          fontBold = Some ''fonts/Go/Go-Bold.ttf'',
          fontItalic = Some ''fonts/Go/Go-Italic.ttf'',
          fontBoldItalic = Some ''fonts/Go/Go-BoldItalic.ttf''\<rparr>"
  by (simp add: walk_defs filter_defs)

text \<open>Scenario B, with the \<open>.otf\<close> read last as the spec has it, and with the \<open>.otf\<close>
  read first: then it is the \<open>.ttf\<close> files that are rejected, the Regular among them.\<close>

lemma scenario_B:
  "fst (Fontpack_Fontpack
          (Dir [(''Go'', Dir [(''Go-Regular.ttf'', File), (''Go-Bold.ttf'', File),
                              (''Go-Italic.ttf'', File), (''Go-BoldItalic.ttf'', File),
                              (''Go-Bold.otf'', File)])])
          ''fonts'' ''Go'' sstate_init) =
     Inr \<lparr>fontRegular = ''fonts/Go/Go-Regular.ttf'',
          fontBold = Some ''fonts/Go/Go-Bold.ttf'',
          fontItalic = Some ''fonts/Go/Go-Italic.ttf'',
          fontBoldItalic = Some ''fonts/Go/Go-BoldItalic.ttf''\<rparr>"
  by (simp add: walk_defs filter_defs)

lemma scenario_B_otf_first:
  "fst (Fontpack_Fontpack
          (Dir [(''Go'', Dir [(''Go-Bold.otf'', File), (''Go-Regular.ttf'', File),
                              (''Go-Bold.ttf'', File)])])
          ''fonts'' ''Go'' sstate_init) =
     Inl (runtime_error ''No suitable files for 'Go' found!'')"
  by (simp add: walk_defs filter_defs)

text \<open>Scenario C of the spec.\<close>

lemma scenario_C:
  "fst (Fontpack_Fontpack (Dir [(''Partial'', Dir [(''Foo-Bold.ttf'', File)])])
          ''fonts'' ''Foo'' sstate_init) =
     Inl (runtime_error ''No suitable files for 'Foo' found!'')"
  by (simp add: walk_defs filter_defs)

subsection \<open>Success and failure of the constructor\<close>

text \<open>
  C5.  When the walk has come to its end (\<open>nftw\<close> has not failed), the constructor throws
  if and only if no Regular candidate is held after the walk; the exception is then the
  \<open>runtime_error\<close> whose message names the family; and every \<open>Fontpack\<close> that is
  constructed has the Regular candidate held after the walk, which is not empty, as its
  Regular.
\<close>

theorem C5_error_iff_no_Regular:
  assumes "nftw root fontpath fontFileFilter True
             (s\<lparr>fontname := name, fontnamelen := length name\<rparr>) = (rc, s')"
    and "rc \<noteq> - 1"
  shows "((\<exists>e. fst (Fontpack_Fontpack root fontpath name s) = Inl e) \<longleftrightarrow> regular s' = []) \<and>
         (regular s' = [] \<longrightarrow>
            fst (Fontpack_Fontpack root fontpath name s) =
              Inl (runtime_error (''No suitable files for '' @ [CHR 39] @ name @ [CHR 39] @
                                  '' found!''))) \<and>
         (\<forall>fp. fst (Fontpack_Fontpack root fontpath name s) = Inr fp \<longrightarrow>
            fontRegular fp = regular s' \<and> fontRegular fp \<noteq> [])"
  using assms by (auto simp: Fontpack_Fontpack_def)

theorem C5_witness:
  "(\<exists>fp. fst (Fontpack_Fontpack (Dir [(''Go-Regular.ttf'', File)]) ''fonts'' ''Go''
              sstate_init) = Inr fp \<and> fontRegular fp = ''fonts/Go-Regular.ttf'') \<and>
   fst (Fontpack_Fontpack (Dir [(''Foo-Bold.ttf'', File)]) ''fonts'' ''Foo'' sstate_init) =
     Inl (runtime_error ''No suitable files for 'Foo' found!'')"
proof -
  have w1: "nftw (Dir [(''Go-Regular.ttf'', File)]) ''fonts'' fontFileFilter True
      (sstate_init\<lparr>fontname := ''Go'', fontnamelen := length ''Go''\<rparr>) =
      (0, \<lparr>fontname = ''Go'', fontnamelen = 2, level = 1, ext = ''.ttf'',
           regular = ''fonts/Go-Regular.ttf'', bold = [], italic = [], boldItalic = []\<rparr>)"
    by (simp add: walk_defs filter_defs)
  have w2: "nftw (Dir [(''Foo-Bold.ttf'', File)]) ''fonts'' fontFileFilter True
      (sstate_init\<lparr>fontname := ''Foo'', fontnamelen := length ''Foo''\<rparr>) =
      (0, \<lparr>fontname = ''Foo'', fontnamelen = 3, level = 1, ext = ''.ttf'',
           regular = [], bold = ''fonts/Foo-Bold.ttf'', italic = [], boldItalic = []\<rparr>)"
    by (simp add: walk_defs filter_defs)
  have n: "(0 :: int) \<noteq> - 1" by simp
  from C5_error_iff_no_Regular [OF w1 n]
  have "\<exists>fp. fst (Fontpack_Fontpack (Dir [(''Go-Regular.ttf'', File)]) ''fonts'' ''Go''
              sstate_init) = Inr fp \<and> fontRegular fp = ''fonts/Go-Regular.ttf''"
    by (cases "fst (Fontpack_Fontpack (Dir [(''Go-Regular.ttf'', File)]) ''fonts'' ''Go''
              sstate_init)") auto
  moreover from C5_error_iff_no_Regular [OF w2 n]
  have "fst (Fontpack_Fontpack (Dir [(''Foo-Bold.ttf'', File)]) ''fonts'' ''Foo'' sstate_init) =
     Inl (runtime_error ''No suitable files for 'Foo' found!'')"
    by simp
  ultimately show ?thesis by blast
qed

subsection \<open>The search state between two constructions\<close>




end
